theory Spec2Isabelle
  imports Complex_Main "HOL-Library.Signed_Division" "HOL-Library.Monad_Syntax"
    "HOL-Library.Word"
begin

unbundle bit_operations_syntax

section \<open>Fishlet shooting targets: the layout arithmetic of \<^verbatim>\<open>target.cpp\<close>\<close>

text \<open>
  The program draws a shooting target into a one-page PDF. This theory embeds the
  parts of \<^verbatim>\<open>target.cpp\<close> that decide the layout: the unit conversions, the
  recursive \<^verbatim>\<open>gcd\<close>, \<^verbatim>\<open>ring_spacing\<close> and \<^verbatim>\<open>ring_radius\<close>, and the sections of
  \<^verbatim>\<open>main\<close> that parse the options, compute the page geometry, open the canvas, fill
  the background, stroke the ring outlines, draw the ring numbers and format the
  caption. The repository's second rendition of the program, written with
  \<^verbatim>\<open>printf\<close>-style output, has the same logic in these places.

  Conventions of the embedding:
  \<^item> an \<^verbatim>\<open>int\<close> is an \<^typ>\<open>int\<close> together with the 32-bit range \<open>int_ok\<close>; an
    operation whose C++ result would leave that range has undefined behaviour and
    yields \<open>None\<close>;
  \<^item> a function that may recurse forever returns an option, \<open>None\<close> standing for
    no result;
  \<^item> calls into the drawing library are recorded as a list of operations;
  \<^item> a \<^verbatim>\<open>double\<close> is read in two ways. The page geometry, the caption and the
    drawing sections compute on \<^typ>\<open>real\<close> with exact arithmetic; their statements are
    evaluated at inputs where rounding does not change the integer or the colour that
    results. Near a boundary it can: with a margin of 1.85 inches the exact radius
    expression is the integer 171, the rounded one lies just below it and the program
    stores 170. The two ring-layout functions are also given with every operation
    rounded to IEEE 754 binary64 (\<open>ring_spacing_double\<close>, \<open>ring_radius_double\<close>), and
    what is said about their values for all radii is said of these.
\<close>

subsection \<open>C++ integers and conversions\<close>

definition INT_MIN :: int where
  "INT_MIN = - 2147483648"

definition INT_MAX :: int where
  "INT_MAX = 2147483647"

definition int_ok :: "int \<Rightarrow> bool" where
  "int_ok i \<longleftrightarrow> INT_MIN \<le> i \<and> i \<le> INT_MAX"

text \<open>
  \<^verbatim>\<open>a - b\<close> and \<^verbatim>\<open>a / b\<close> on \<^verbatim>\<open>int\<close>: undefined when the result is not
  representable or the divisor is \<open>0\<close>. Integer division truncates towards zero.
\<close>

definition int_sub :: "int \<Rightarrow> int \<Rightarrow> int option" where
  "int_sub a b = (if int_ok (a - b) then Some (a - b) else None)"

definition int_div :: "int \<Rightarrow> int \<Rightarrow> int option" where
  "int_div a b = (if b \<noteq> 0 \<and> int_ok (a sdiv b) then Some (a sdiv b) else None)"

text \<open>
  Conversion of a \<^verbatim>\<open>double\<close> to \<^verbatim>\<open>int\<close>, implicit in an assignment or written as
  the cast \<^verbatim>\<open>(int)x\<close>: the fraction is discarded (truncation towards zero); undefined
  when the truncated value is not representable.
\<close>

definition trunc_zero :: "real \<Rightarrow> int" where
  "trunc_zero x = (if 0 \<le> x then \<lfloor>x\<rfloor> else \<lceil>x\<rceil>)"

definition double_to_int :: "real \<Rightarrow> int option" where
  "double_to_int x = (if int_ok (trunc_zero x) then Some (trunc_zero x) else None)"

subsection \<open>Defaults and unit conversions\<close>

definition DEFAULT_GEOM :: string where
  "DEFAULT_GEOM = ''8.5x11''"

definition DEFAULT_MARGIN :: real where
  "DEFAULT_MARGIN = 0.25"

definition DEFAULT_FNAME :: string where
  "DEFAULT_FNAME = ''target.pdf''"

definition DEFAULT_RINGS :: int where
  "DEFAULT_RINGS = 8"

definition DEFAULT_ORINGS :: int where
  "DEFAULT_ORINGS = 2"

definition DEFAULT_IRINGS :: int where
  "DEFAULT_IRINGS = 3"

definition DEFAULT_LINEW :: real where
  "DEFAULT_LINEW = 0.05"

definition inch_pt :: "real \<Rightarrow> real" where
  "inch_pt i = i * 72.0"

definition pt_inch :: "real \<Rightarrow> real" where
  "pt_inch p = p / 72.0"

subsection \<open>The recursive gcd\<close>

text \<open>
  \<^verbatim>\<open>return (a == 0) ? b : (a < b) ? gcd(a, b % a) : gcd(b, a);\<close>

  The C++ remainder \<^verbatim>\<open>%\<close> truncates towards zero, which is \<open>smod\<close>. The divisor
  is never \<open>0\<close> here, and never \<open>-1\<close> with the dividend \<open>INT_MIN\<close>, because the
  remainder is only taken when \<open>a \<noteq> 0\<close> and \<open>a < b\<close>. Nothing bounds the recursion
  in the source, so the embedding is a partial function.
\<close>

partial_function (option) gcd_c :: "int \<Rightarrow> int \<Rightarrow> int option" where
  "gcd_c a b =
     (if a = 0 then Some b
      else if a < b then gcd_c a (b smod a)
      else gcd_c b a)"

declare gcd_c.simps [code]

subsection \<open>Ring layout\<close>

text \<open>The two functions in exact arithmetic.\<close>

definition ring_spacing :: "real \<Rightarrow> int \<Rightarrow> real" where
  "ring_spacing radius rings = radius / (real_of_int rings + 0.5)"

definition ring_radius :: "real \<Rightarrow> int \<Rightarrow> int \<Rightarrow> real" where
  "ring_radius radius rings ring =
     (let rs = ring_spacing radius rings in rs / 2 + real_of_int ring * rs)"

subsection \<open>Binary64 arithmetic\<close>

text \<open>
  A \<^verbatim>\<open>double\<close> value: a finite number, an infinity or a NaN. Zero carries no sign
  here; the functions below never divide by zero, where the sign would matter. A
  finite result is the exact result rounded to the nearest number with a 53-bit
  significand and an exponent from \<open>EMIN\<close> on (subnormal numbers share the exponent
  \<open>EMIN\<close>), a tie going to the even significand; a rounded magnitude of
  \<open>2 powi (EMAX + 1)\<close> or more is an overflow and gives an infinity.
\<close>

datatype double = Fin real | PInf | NInf | NaN

definition round_even :: "real \<Rightarrow> int" where
  "round_even y =
     (let f = \<lfloor>y\<rfloor>; r = y - real_of_int f
      in if r < 1 / 2 then f
         else if 1 / 2 < r then f + 1
         else if even f then f else f + 1)"

definition EMIN :: int where
  "EMIN = - 1022"

definition EMAX :: int where
  "EMAX = 1023"

definition expo :: "real \<Rightarrow> int" where
  "expo x = max EMIN \<lfloor>log 2 \<bar>x\<bar>\<rfloor>"

definition ulp :: "real \<Rightarrow> real" where
  "ulp x = 2 powi (expo x - 52)"

definition round64 :: "real \<Rightarrow> double" where
  "round64 x =
     (if x = 0 then Fin 0
      else let m = real_of_int (round_even (x / ulp x)) * ulp x
           in if 2 powi (EMAX + 1) \<le> \<bar>m\<bar> then (if 0 < x then PInf else NInf) else Fin m)"

text \<open>The unit roundoff.\<close>

definition eps :: real where
  "eps = 1 / 2 ^ 53"

fun d_neg :: "double \<Rightarrow> double" where
  "d_neg (Fin a) = Fin (- a)"
| "d_neg PInf = NInf"
| "d_neg NInf = PInf"
| "d_neg NaN = NaN"

fun d_add :: "double \<Rightarrow> double \<Rightarrow> double" where
  "d_add (Fin a) (Fin b) = round64 (a + b)"
| "d_add NaN _ = NaN"
| "d_add _ NaN = NaN"
| "d_add PInf NInf = NaN"
| "d_add NInf PInf = NaN"
| "d_add PInf _ = PInf"
| "d_add _ PInf = PInf"
| "d_add NInf _ = NInf"
| "d_add _ NInf = NInf"

fun d_mul :: "double \<Rightarrow> double \<Rightarrow> double" where
  "d_mul (Fin a) (Fin b) = round64 (a * b)"
| "d_mul NaN _ = NaN"
| "d_mul _ NaN = NaN"
| "d_mul (Fin a) y = (if a = 0 then NaN else if 0 < a then y else d_neg y)"
| "d_mul x (Fin b) = (if b = 0 then NaN else if 0 < b then x else d_neg x)"
| "d_mul x PInf = x"
| "d_mul x NInf = d_neg x"

fun d_div :: "double \<Rightarrow> double \<Rightarrow> double" where
  "d_div (Fin a) (Fin b) =
     (if b = 0 then (if a = 0 then NaN else if 0 < a then PInf else NInf)
      else round64 (a / b))"
| "d_div NaN _ = NaN"
| "d_div _ NaN = NaN"
| "d_div (Fin a) _ = Fin 0"
| "d_div x (Fin b) = (if 0 \<le> b then x else d_neg x)"
| "d_div _ _ = NaN"

text \<open>The comparison \<^verbatim>\<open><\<close>: false whenever a NaN is compared.\<close>

fun d_less :: "double \<Rightarrow> double \<Rightarrow> bool" where
  "d_less (Fin a) (Fin b) \<longleftrightarrow> a < b"
| "d_less NaN _ \<longleftrightarrow> False"
| "d_less _ NaN \<longleftrightarrow> False"
| "d_less PInf _ \<longleftrightarrow> False"
| "d_less _ PInf \<longleftrightarrow> True"
| "d_less _ NInf \<longleftrightarrow> False"
| "d_less NInf _ \<longleftrightarrow> True"

text \<open>
  \<^verbatim>\<open>ring_spacing\<close> and \<^verbatim>\<open>ring_radius\<close> as the program computes them: the \<^verbatim>\<open>int\<close>
  operands are converted exactly, and the sum, the quotients and the product are
  each rounded (the expression \<^verbatim>\<open>rs / 2 + ring * rs\<close> is not fused).
\<close>

definition ring_spacing_double :: "double \<Rightarrow> int \<Rightarrow> double" where
  "ring_spacing_double radius rings =
     d_div radius (d_add (Fin (real_of_int rings)) (Fin 0.5))"

definition ring_radius_double :: "double \<Rightarrow> int \<Rightarrow> int \<Rightarrow> double" where
  "ring_radius_double radius rings ring =
     (let rs = ring_spacing_double radius rings
      in d_add (d_div rs (Fin 2)) (d_mul (Fin (real_of_int ring)) rs))"

subsection \<open>Printing an integer\<close>

text \<open>What \<^verbatim>\<open>ostream << int\<close> writes: the decimal digits, after a minus sign if negative.\<close>

fun show_nat :: "nat \<Rightarrow> string" where
  "show_nat n =
     (if n < 10 then [''0123456789'' ! n]
      else show_nat (n div 10) @ [''0123456789'' ! (n mod 10)])"

declare show_nat.simps [simp del]

definition show_int :: "int \<Rightarrow> string" where
  "show_int i = (if i < 0 then CHR ''-'' # show_nat (nat (- i)) else show_nat (nat i))"

subsection \<open>Canvas operations\<close>

text \<open>
  The calls that the modelled sections of \<^verbatim>\<open>main\<close> make on the drawing context, in
  the order of the library's parameters. \<open>AlignedText\<close> is a call of the program's
  own helper \<^verbatim>\<open>aligned_text(cr, x, y, align, text)\<close>, whose text measurement belongs
  to the library and is not unfolded here.
\<close>

datatype cairo_op =
    Rectangle real real real real
  | SetSourceRGBA real real real real
  | Arc real real real real real
  | Fill
  | Stroke
  | AlignedText real real "32 word" string

definition ALIGN_H_CENTER :: "32 word" where
  "ALIGN_H_CENTER = 1"

definition ALIGN_V_CENTER :: "32 word" where
  "ALIGN_V_CENTER = 8"

subsection \<open>Ring outlines and ring numbers\<close>

text \<open>
  The body of the loop \<^verbatim>\<open>for (int ring = 0; ring <= opt_rings; ring++)\<close> that strokes
  the outlines. \<^verbatim>\<open>radius\<close> is an \<^verbatim>\<open>int\<close> in \<^verbatim>\<open>main\<close> and is converted at the call
  of \<^verbatim>\<open>ring_radius\<close>. The condition is evaluated left to right with short-circuit,
  so \<^verbatim>\<open>opt_rings - opt_orings\<close> is computed only when the first disjunct is false.
\<close>

definition ring_outline ::
  "real \<Rightarrow> real \<Rightarrow> int \<Rightarrow> int \<Rightarrow> int \<Rightarrow> int \<Rightarrow> int \<Rightarrow> cairo_op list option" where
  "ring_outline cx cy radius rings irings orings ring =
     do {
       let r = ring_radius (real_of_int radius) rings ring;
       white \<leftarrow>
         (if ring > 0 \<and> ring < irings then Some True
          else do {
            d \<leftarrow> int_sub rings orings;
            Some (ring > d \<and> ring < rings)
          });
       Some [Arc cx cy r 0 (2 * pi),
             if white then SetSourceRGBA 1.0 1.0 1.0 1.0 else SetSourceRGBA 0.0 0.0 0.0 1.0,
             Stroke]
     }"

text \<open>
  The body of the loop \<^verbatim>\<open>for (int ring = 1; ring <= opt_rings; ring++)\<close> that draws
  the ring numbers: the colour is chosen first, then the number is printed at the
  four axis positions, \<^verbatim>\<open>ring * rs\<close> away from the centre.
\<close>

definition ring_number ::
  "real \<Rightarrow> real \<Rightarrow> real \<Rightarrow> int \<Rightarrow> int \<Rightarrow> int \<Rightarrow> int \<Rightarrow> cairo_op list option" where
  "ring_number cx cy rs rings irings orings ring =
     do {
       white \<leftarrow>
         (if ring \<le> irings then Some True
          else do {
            d \<leftarrow> int_sub rings orings;
            Some (ring > d)
          });
       let num_s = show_int ring;
       let align = ALIGN_H_CENTER OR ALIGN_V_CENTER;
       Some [if white then SetSourceRGBA 1.0 1.0 1.0 1.0 else SetSourceRGBA 0.0 0.0 0.0 1.0,
             AlignedText (cx + real_of_int ring * rs) cy align num_s,
             AlignedText (cx - real_of_int ring * rs) cy align num_s,
             AlignedText cx (cy + real_of_int ring * rs) align num_s,
             AlignedText cx (cy - real_of_int ring * rs) align num_s]
     }"

subsection \<open>The spacing caption\<close>

text \<open>
  \<^verbatim>\<open>int den = 32; int num = (int)(pt_inch(rs) * 32 + 0.5); int g = gcd(num, den);\<close>
  followed by the text \<^verbatim>\<open>"Ring spacing " << (num / g) << "/" << (den / g) << "\""\<close>.
\<close>

definition caption :: "real \<Rightarrow> string option" where
  "caption rs =
     do {
       let den = 32;
       num \<leftarrow> double_to_int (pt_inch rs * 32 + 0.5);
       g \<leftarrow> gcd_c num den;
       n \<leftarrow> int_div num g;
       d \<leftarrow> int_div den g;
       Some (''Ring spacing '' @ show_int n @ ''/'' @ show_int d @ [CHR 0x22])
     }"

subsection \<open>Options, page geometry and the start of the drawing\<close>

text \<open>The option variables of \<^verbatim>\<open>main\<close>.\<close>

record options =
  opt_geom :: string
  opt_margin :: real
  opt_fname :: string
  opt_rings :: int
  opt_irings :: int
  opt_orings :: int
  opt_linew :: real
  opt_bg :: bool

text \<open>
  What \<^verbatim>\<open>main\<close> takes from outside the program: the C library's number parsers, the
  status that the drawing library reports for the new context (\<open>None\<close> for success,
  otherwise its description), and the value found in \<^verbatim>\<open>opt_bg\<close>, which is declared
  \<^verbatim>\<open>bool opt_bg;\<close> without an initialiser, unlike the seven variables before it.
\<close>

record environment =
  atof :: "string \<Rightarrow> real"
  atoi :: "string \<Rightarrow> int"
  cairo_status :: "string option"
  opt_bg_indeterminate :: bool

definition main_locals :: "environment \<Rightarrow> options" where
  "main_locals E =
     \<lparr>opt_geom = DEFAULT_GEOM,
      opt_margin = DEFAULT_MARGIN,
      opt_fname = DEFAULT_FNAME,
      opt_rings = DEFAULT_RINGS,
      opt_irings = DEFAULT_IRINGS,
      opt_orings = DEFAULT_ORINGS,
      opt_linew = DEFAULT_LINEW,
      opt_bg = opt_bg_indeterminate E\<rparr>"

text \<open>What a run does that can be observed from outside, in order.\<close>

datatype effect =
    Stderr string
  | Exit int
  | PdfSurfaceCreate string real real
  | Cairo cairo_op

text \<open>
  \<^verbatim>\<open>usage()\<close> writes the option summary to \<^verbatim>\<open>cerr\<close> and calls \<^verbatim>\<open>exit(2)\<close>. The
  stream prints the two \<^verbatim>\<open>double\<close> defaults as \<^verbatim>\<open>0.25\<close> and \<^verbatim>\<open>0.05\<close>.
\<close>

definition usage_text :: string where
  "usage_text = concat (map (\<lambda>line. line @ [CHR 0x0A])
     [''Usage: target [options]'',
      ''   -s WxH       Set size in inches ('' @ DEFAULT_GEOM @ '')'',
      ''   -m MARGIN    Set page margin (0.25)'',
      ''   -o FNAME     Set output filename ('' @ DEFAULT_FNAME @ '')'',
      ''   -r RINGS     Set number of rings ('' @ show_int DEFAULT_RINGS @ '')'',
      ''   -I IRINGS    Set number of inner rings ('' @ show_int DEFAULT_IRINGS @ '')'',
      ''   -O ORINGS    Set number of outer rings ('' @ show_int DEFAULT_ORINGS @ '')'',
      ''   -l LINEW     Set line width (0.05)'',
      ''   -b           Use yellowish background color''])"

definition usage :: "effect list" where
  "usage = [Stderr usage_text, Exit 2]"

text \<open>
  The \<^verbatim>\<open>switch\<close> on one result of \<^verbatim>\<open>getopt(argc, argv, "s:m:o:r:I:O:l:b")\<close>: the
  option character returned and \<^verbatim>\<open>optarg\<close>. \<open>None\<close> is the \<^verbatim>\<open>default:\<close> label, taken
  for every other character; \<^verbatim>\<open>getopt\<close> returns \<^verbatim>\<open>'?'\<close> for an option character that
  is not in its option string.
\<close>

fun switch_opt :: "environment \<Rightarrow> options \<Rightarrow> char \<times> string \<Rightarrow> options option" where
  "switch_opt E opts (opt, optarg) =
     (if opt = CHR ''s'' then Some (opts\<lparr>opt_geom := optarg\<rparr>)
      else if opt = CHR ''m'' then Some (opts\<lparr>opt_margin := atof E optarg\<rparr>)
      else if opt = CHR ''o'' then Some (opts\<lparr>opt_fname := optarg\<rparr>)
      else if opt = CHR ''r'' then Some (opts\<lparr>opt_rings := atoi E optarg\<rparr>)
      else if opt = CHR ''I'' then Some (opts\<lparr>opt_irings := atoi E optarg\<rparr>)
      else if opt = CHR ''O'' then Some (opts\<lparr>opt_orings := atoi E optarg\<rparr>)
      else if opt = CHR ''l'' then Some (opts\<lparr>opt_linew := atof E optarg\<rparr>)
      else if opt = CHR ''b'' then Some (opts\<lparr>opt_bg := True\<rparr>)
      else None)"

text \<open>
  The loop \<^verbatim>\<open>while ((opt = getopt(...)) >= 0)\<close> over the results that \<^verbatim>\<open>getopt\<close>
  yields for the command line, up to its final \<open>-1\<close>. It ends the run through
  \<^verbatim>\<open>usage()\<close> at the first result that reaches the \<^verbatim>\<open>default:\<close> label.
\<close>

fun getopt_loop ::
  "environment \<Rightarrow> options \<Rightarrow> (char \<times> string) list \<Rightarrow> effect list + options" where
  "getopt_loop E opts [] = Inr opts"
| "getopt_loop E opts (r # rs) =
     (case switch_opt E opts r of
        None \<Rightarrow> Inl usage
      | Some opts' \<Rightarrow> getopt_loop E opts' rs)"

text \<open>\<^verbatim>\<open>strchr(s, c)\<close>: the rest of the string from the first \<open>c\<close> on, if there is one.\<close>

definition strchr :: "string \<Rightarrow> char \<Rightarrow> string option" where
  "strchr s c = (if c \<in> set s then Some (dropWhile (\<lambda>d. d \<noteq> c) s) else None)"

text \<open>
  The outer radius: \<^verbatim>\<open>int radius;\<close> assigned
  \<^verbatim>\<open>width / 2 - margin - linew / 2\<close> if \<^verbatim>\<open>width < height\<close> and
  \<^verbatim>\<open>height / 2 - margin - linew / 2\<close> otherwise. The variable is an \<^verbatim>\<open>int\<close>, so the
  assignment converts.
\<close>

definition target_radius :: "real \<Rightarrow> real \<Rightarrow> real \<Rightarrow> real \<Rightarrow> int option" where
  "target_radius width height margin linew =
     (if width < height then double_to_int (width / 2 - margin - linew / 2)
      else double_to_int (height / 2 - margin - linew / 2))"

record geometry =
  width :: real
  height :: real
  margin :: real
  cx :: real
  cy :: real
  linew :: real
  radius :: int

text \<open>From the \<^verbatim>\<open>strchr\<close> test to the radius; \<open>Inl\<close> is the run ended by \<^verbatim>\<open>usage()\<close>.\<close>

definition page_geometry :: "environment \<Rightarrow> options \<Rightarrow> (effect list + geometry) option" where
  "page_geometry E opts =
     (case strchr (opt_geom opts) CHR ''x'' of
        None \<Rightarrow> Some (Inl usage)
      | Some s \<Rightarrow>
          (let w = inch_pt (atof E (opt_geom opts));
               h = inch_pt (atof E (tl s));
               m = inch_pt (opt_margin opts);
               l = inch_pt (opt_linew opts)
           in do {
             r \<leftarrow> target_radius w h m l;
             Some (Inr \<lparr>width = w, height = h, margin = m,
                        cx = w / 2, cy = h / 2, linew = l, radius = r\<rparr>)
           }))"

text \<open>\<^verbatim>\<open>check_status(cr)\<close>: a failure is reported and ends the run with status 1.\<close>

definition check_status :: "environment \<Rightarrow> effect list option" where
  "check_status E =
     (case cairo_status E of
        None \<Rightarrow> None
      | Some msg \<Rightarrow> Some [Stderr (''Operation failed: '' @ msg @ [CHR 0x0A]), Exit 1])"

text \<open>The block guarded by \<^verbatim>\<open>if (opt_bg)\<close>.\<close>

definition background :: "options \<Rightarrow> geometry \<Rightarrow> cairo_op list" where
  "background opts g =
     (if opt_bg opts
      then [Rectangle (margin g) (margin g)
              (width g - 2 * margin g) (height g - 2 * margin g),
            SetSourceRGBA 0.95 0.95 0.8 1.0,
            Fill]
      else [])"

text \<open>
  \<^verbatim>\<open>main\<close> from its first statement to the end of the background block: the effects
  so far, given the results of \<^verbatim>\<open>getopt\<close>. A list that ends in \<open>Exit\<close> is a complete
  run; otherwise the drawing continues after it. \<open>None\<close> is undefined behaviour in
  the conversion of the radius.
\<close>

definition main_begin :: "environment \<Rightarrow> (char \<times> string) list \<Rightarrow> effect list option" where
  "main_begin E results =
     (case getopt_loop E (main_locals E) results of
        Inl ended \<Rightarrow> Some ended
      | Inr opts \<Rightarrow>
          do {
            pg \<leftarrow> page_geometry E opts;
            (case pg of
               Inl ended \<Rightarrow> Some ended
             | Inr g \<Rightarrow>
                 Some (PdfSurfaceCreate (opt_fname opts) (width g) (height g) #
                   (case check_status E of
                      Some ended \<Rightarrow> ended
                    | None \<Rightarrow> map Cairo (background opts g))))
          })"

section \<open>Properties\<close>

subsection \<open>Ring layout\<close>



subsection \<open>Rounding to binary64\<close>

text \<open>The exponent that \<open>expo\<close> finds, from a bracket of powers of two.\<close>

lemma round_even_error: "\<bar>real_of_int (round_even y) - y\<bar> \<le> 1 / 2"
  unfolding round_even_def Let_def by (auto simp: abs_le_iff)

lemma floor_log2_bracket:
  assumes "2 powi e \<le> a" and "a < 2 powi (e + 1)"
  shows "\<lfloor>log 2 a\<rfloor> = e"
proof -
  have "(0::real) < 2 powi e" by simp
  with assms(1) have pos: "0 < a" by linarith
  have "2 powr real_of_int e = 2 powi e"
    by (simp add: powr_real_of_int')
  moreover have "2 powr (real_of_int e + 1) = 2 powi (e + 1)"
    using powr_real_of_int' [of 2 "e + 1"] by simp
  ultimately have "2 powr real_of_int e \<le> a \<and> a < 2 powr (real_of_int e + 1)"
    using assms by simp
  with pos show ?thesis
    using floor_log_eq_powr_iff [of a 2 e] by simp
qed

lemma expo_bracket:
  assumes "2 powi e \<le> \<bar>x\<bar>" and "\<bar>x\<bar> < 2 powi (e + 1)" and "EMIN \<le> e"
  shows "expo x = e"
  using floor_log2_bracket [OF assms(1,2)] assms(3) by (simp add: expo_def)

lemma floor_log2_below:
  assumes "0 < a" and "a < 2 powi e"
  shows "\<lfloor>log 2 a\<rfloor> < e"
proof (rule ccontr)
  assume "\<not> \<lfloor>log 2 a\<rfloor> < e"
  then have "real_of_int e \<le> log 2 a" by (simp add: not_less le_floor_iff)
  then have "2 powr real_of_int e \<le> 2 powr log 2 a" by simp
  with assms show False by (simp add: powr_real_of_int')
qed

lemma expo_subnormal:
  assumes "x \<noteq> 0" and "\<bar>x\<bar> < 2 powi EMIN"
  shows "expo x = EMIN"
  using floor_log2_below [of "\<bar>x\<bar>" EMIN] assms by (simp add: expo_def)

lemma expo_normal:
  assumes "2 powi EMIN \<le> \<bar>x\<bar>"
  shows "2 powi expo x \<le> \<bar>x\<bar>"
proof -
  have "(0::real) < 2 powi EMIN" by simp
  with assms have pos: "0 < \<bar>x\<bar>" by linarith
  have "real_of_int EMIN \<le> log 2 \<bar>x\<bar>"
  proof -
    have "2 powr real_of_int EMIN \<le> 2 powr log 2 \<bar>x\<bar>"
      using assms pos by (simp add: powr_real_of_int')
    then show ?thesis by simp
  qed
  then have "EMIN \<le> \<lfloor>log 2 \<bar>x\<bar>\<rfloor>" by (simp add: le_floor_iff)
  then have e: "expo x = \<lfloor>log 2 \<bar>x\<bar>\<rfloor>" by (simp add: expo_def)
  have "2 powr real_of_int \<lfloor>log 2 \<bar>x\<bar>\<rfloor> \<le> 2 powr log 2 \<bar>x\<bar>"
    by simp
  then show ?thesis using pos e by (simp add: powr_real_of_int')
qed

text \<open>Evaluating \<open>round64\<close> once the exponent is known, and below the smallest number.\<close>

lemma round64_eval:
  assumes "2 powi e \<le> \<bar>x\<bar>" and "\<bar>x\<bar> < 2 powi (e + 1)" and "EMIN \<le> e"
  shows "round64 x =
           (let m = real_of_int (round_even (x / 2 powi (e - 52))) * 2 powi (e - 52)
            in if 2 powi (EMAX + 1) \<le> \<bar>m\<bar> then (if 0 < x then PInf else NInf) else Fin m)"
proof -
  have "(0::real) < 2 powi e" by simp
  with assms(1) have "0 < \<bar>x\<bar>" by linarith
  then have "x \<noteq> 0" by simp
  moreover have "ulp x = 2 powi (e - 52)"
    using expo_bracket [OF assms(1-3)] by (simp add: ulp_def)
  ultimately show ?thesis
    by (simp add: round64_def)
qed

lemma round_even_small:
  assumes "\<bar>t\<bar> < 1 / 2"
  shows "round_even t = 0"
proof (cases "0 \<le> t")
  case True
  with assms have "\<lfloor>t\<rfloor> = 0" by (intro floor_unique) auto
  with assms True show ?thesis by (simp add: round_even_def)
next
  case False
  with assms have "\<lfloor>t\<rfloor> = - 1" by (intro floor_unique) auto
  with assms False show ?thesis by (simp add: round_even_def)
qed

lemma round64_subnormal_zero:
  assumes "\<bar>x\<bar> < 2 powi (EMIN - 53)"
  shows "round64 x = Fin 0"
proof (cases "x = 0")
  case True
  then show ?thesis by (simp add: round64_def)
next
  case False
  have "(2::real) powi (EMIN - 53) \<le> 2 powi EMIN"
    by (rule power_int_increasing) simp_all
  with assms have "\<bar>x\<bar> < 2 powi EMIN" by simp
  with False have u: "ulp x = 2 powi (EMIN - 52)"
    by (simp add: ulp_def expo_subnormal)
  have "(2::real) powi (EMIN - 52) = 2 * 2 powi (EMIN - 53)"
    using power_int_add [of "2::real" 1 "EMIN - 53"] by simp
  then have "\<bar>x / 2 powi (EMIN - 52)\<bar> < 1 / 2"
    using assms by (simp add: field_simps abs_mult)
  then have "round_even (x / 2 powi (EMIN - 52)) = 0"
    by (rule round_even_small)
  moreover have "\<not> (2::real) powi (EMAX + 1) \<le> 0"
    by (simp add: not_le)
  ultimately show ?thesis
    using False u by (simp add: round64_def Let_def)
qed

text \<open>
  In the normal range rounding gives a finite number with a relative error of at
  most \<open>eps\<close>.
\<close>

lemma eps_bounds: "0 < eps" "eps < 1"
  by (simp_all add: eps_def)

lemma round64_rel:
  assumes "2 powi EMIN \<le> x" and "x \<le> 2 powi EMAX"
  obtains y where "round64 x = Fin y" and "x * (1 - eps) \<le> y" and "y \<le> x * (1 + eps)"
proof -
  have "(0::real) < 2 powi EMIN" by simp
  with assms(1) have pos: "0 < x" by linarith
  define u where "u = ulp x"
  define y where "y = real_of_int (round_even (x / u)) * u"
  have upos: "0 < u" by (simp add: u_def ulp_def)
  have "2 powi expo x \<le> x"
    using expo_normal [of x] assms(1) pos by simp
  moreover have "u = 2 powi expo x / 2 ^ 52"
    by (simp add: u_def ulp_def power_int_diff)
  ultimately have ule: "u \<le> x / 2 ^ 52" by (simp add: divide_right_mono)
  have "y - x = u * (real_of_int (round_even (x / u)) - x / u)"
    using upos by (simp add: y_def field_simps)
  then have "\<bar>y - x\<bar> = u * \<bar>real_of_int (round_even (x / u)) - x / u\<bar>"
    using upos by (simp add: abs_mult)
  also have "\<dots> \<le> u * (1 / 2)"
    using upos round_even_error [of "x / u"] by (intro mult_left_mono) simp_all
  also have "\<dots> \<le> x * eps"
    using ule by (simp add: eps_def)
  finally have err: "\<bar>y - x\<bar> \<le> x * eps" .
  then have lo: "x * (1 - eps) \<le> y" and hi: "y \<le> x * (1 + eps)"
    by (simp_all add: algebra_simps abs_le_iff)
  have xe: "x * eps < x * 1"
    using pos eps_bounds by (intro mult_strict_left_mono)
  have "0 \<le> y" using lo xe by (simp add: algebra_simps)
  moreover have "y < 2 * x" using hi xe by (simp add: algebra_simps)
  moreover have "(2::real) powi (EMAX + 1) = 2 * 2 powi EMAX"
    using power_int_add [of "2::real" 1 EMAX] by (simp add: add.commute)
  ultimately have "\<not> 2 powi (EMAX + 1) \<le> \<bar>y\<bar>"
    using assms(2) by simp
  then have "round64 x = Fin y"
    using pos by (simp add: round64_def Let_def y_def u_def)
  with lo hi that show thesis by blast
qed

lemma normal_range:
  fixes x :: real
  assumes "2 powi (- 960) / 2 ^ 40 \<le> x" and "x \<le> 2 ^ 40 * 2 powi 960"
  shows "2 powi EMIN \<le> x" and "x \<le> 2 powi EMAX"
proof -
  have "(2::real) powi (- 960) / 2 ^ 40 = 2 powi (- 1000)"
    using power_int_diff [of "2::real" "- 960" 40] by simp
  moreover have "(2::real) powi EMIN \<le> 2 powi (- 1000)"
    by (rule power_int_increasing) (simp_all add: EMIN_def)
  ultimately show "2 powi EMIN \<le> x" using assms(1) by linarith
  have "(2::real) ^ 40 * 2 powi 960 = 2 powi 1000"
    using power_int_add [of "2::real" 40 960] by simp
  moreover have "(2::real) powi 1000 \<le> 2 powi EMAX"
    by (rule power_int_increasing) (simp_all add: EMAX_def)
  ultimately show "x \<le> 2 powi EMAX" using assms(2) by linarith
qed

lemma round64_pos:
  assumes "2 powi (- 960) / 2 ^ 40 \<le> x" and "x \<le> 2 ^ 40 * 2 powi 960"
  obtains y where "round64 x = Fin y" and "x * (1 - eps) \<le> y" and "y \<le> x * (1 + eps)"
    and "x / 2 \<le> y" and "y \<le> 2 * x"
proof -
  have "(0::real) < 2 powi (- 960) / 2 ^ 40" by simp
  with assms(1) have pos: "0 < x" by linarith
  from round64_rel [OF normal_range [OF assms]] obtain y where
    y: "round64 x = Fin y" "x * (1 - eps) \<le> y" "y \<le> x * (1 + eps)" by blast
  have "x * eps \<le> x * (1 / 2)"
    using pos by (intro mult_left_mono) (simp_all add: eps_def)
  with y(2,3) have "x / 2 \<le> y" "y \<le> 2 * x"
    by (simp_all add: algebra_simps)
  with y that show thesis by blast
qed

subsection \<open>Ring layout in binary64 arithmetic\<close>

text \<open>
  For a radius between \<open>2 powi (- 960)\<close> and \<open>2 powi 960\<close> every intermediate value
  of the two functions stays in the normal range, so each operation contributes a
  relative error of at most \<open>eps\<close>.
\<close>

lemma ring_spacing_double_bounds:
  assumes r: "2 powi (- 960) \<le> r" "r \<le> 2 powi 960" and N: "0 \<le> N" "N \<le> INT_MAX"
  obtains d rs where
    "0 < d" and "(real_of_int N + 1 / 2) * (1 - eps) \<le> d" and "d \<le> (real_of_int N + 1 / 2) * (1 + eps)"
    and "ring_spacing_double (Fin r) N = Fin rs"
    and "r / d * (1 - eps) \<le> rs" and "rs \<le> r / d * (1 + eps)"
    and "2 powi (- 960) / 2 ^ 34 \<le> rs" and "rs \<le> 2 ^ 3 * 2 powi 960"
proof -
  define L :: real where "L = 2 powi (- 960)"
  define H :: real where "H = 2 powi 960"
  have LH: "0 < L" "L \<le> 1" "1 \<le> H"
    unfolding L_def H_def
    using power_int_increasing [of "- 960" 0 "2::real"] power_int_increasing [of 0 960 "2::real"]
    by simp_all
  note r' = r [folded L_def H_def]
  define x0 where "x0 = real_of_int N + 1 / 2"
  have x0: "1 / 2 \<le> x0" "x0 \<le> 2 ^ 31"
    using N by (simp_all add: x0_def INT_MAX_def)
  have "L / 2 ^ 40 \<le> x0" "x0 \<le> 2 ^ 40 * H"
    using x0 LH by (auto simp: field_simps intro: order_trans)
  then obtain d where d: "round64 x0 = Fin d" "x0 * (1 - eps) \<le> d" "d \<le> x0 * (1 + eps)"
      "x0 / 2 \<le> d" "d \<le> 2 * x0"
    unfolding L_def H_def by (rule round64_pos)
  have dr: "1 / 4 \<le> d" "d \<le> 2 ^ 32" using d(4,5) x0 by simp_all
  then have dpos: "0 < d" by linarith
  define x1 where "x1 = r / d"
  have rpos: "0 < r" using r' LH by linarith
  have "r / 2 ^ 32 \<le> x1"
    unfolding x1_def using dr dpos rpos by (intro divide_left_mono) simp_all
  moreover have "x1 \<le> r / (1 / 4)"
    unfolding x1_def using dr dpos rpos by (intro divide_left_mono) simp_all
  ultimately have x1: "L / 2 ^ 32 \<le> x1" "x1 \<le> 4 * H"
    using r' by (simp_all add: field_simps)
  then have "L / 2 ^ 40 \<le> x1" "x1 \<le> 2 ^ 40 * H"
    using LH by (simp_all add: field_simps)
  then obtain rs where rs: "round64 x1 = Fin rs" "x1 * (1 - eps) \<le> rs" "rs \<le> x1 * (1 + eps)"
      "x1 / 2 \<le> rs" "rs \<le> 2 * x1"
    unfolding L_def H_def by (rule round64_pos)
  have "ring_spacing_double (Fin r) N = Fin rs"
    using d(1) rs(1) dpos by (simp add: ring_spacing_double_def x0_def x1_def)
  moreover have "L / 2 ^ 34 \<le> rs" "rs \<le> 2 ^ 3 * H"
    using rs(4,5) x1 by (simp_all add: field_simps)
  ultimately show thesis
    using that [of d rs] dpos d(2,3) rs(2,3) unfolding x0_def x1_def L_def H_def by blast
qed

lemma round64_index_times:
  assumes rs: "2 powi (- 960) / 2 ^ 34 \<le> rs" "rs \<le> 2 ^ 3 * 2 powi 960"
    and i: "0 \<le> i" "i \<le> INT_MAX"
  obtains p where "round64 (real_of_int i * rs) = Fin p"
    and "real_of_int i * rs * (1 - eps) \<le> p" and "p \<le> real_of_int i * rs * (1 + eps)"
    and "0 \<le> p" and "p \<le> 2 ^ 32 * rs"
proof (cases "i = 0")
  case True
  have "(0::real) < 2 powi (- 960) / 2 ^ 34" by simp
  with rs(1) have "0 < rs" by linarith
  with True that [of 0] show thesis by (simp add: round64_def)
next
  case False
  define L :: real where "L = 2 powi (- 960)"
  define H :: real where "H = 2 powi 960"
  have LH: "0 < L" "0 < H" by (simp_all add: L_def H_def)
  note rs' = rs [folded L_def H_def]
  have "0 < L / 2 ^ 34" using LH by simp
  with rs'(1) have rspos: "0 < rs" by linarith
  from False i have i1: "1 \<le> real_of_int i" "real_of_int i \<le> 2 ^ 31"
    by (simp_all add: INT_MAX_def)
  have "1 * rs \<le> real_of_int i * rs" "real_of_int i * rs \<le> 2 ^ 31 * rs"
    using i1 rspos by (intro mult_right_mono; simp)+
  then have x: "L / 2 ^ 34 \<le> real_of_int i * rs" "real_of_int i * rs \<le> 2 ^ 34 * H"
    using rs' by simp_all
  then have "L / 2 ^ 40 \<le> real_of_int i * rs" "real_of_int i * rs \<le> 2 ^ 40 * H"
    using LH by (simp_all add: field_simps)
  then obtain p where p: "round64 (real_of_int i * rs) = Fin p"
      "real_of_int i * rs * (1 - eps) \<le> p" "p \<le> real_of_int i * rs * (1 + eps)"
      "real_of_int i * rs / 2 \<le> p" "p \<le> 2 * (real_of_int i * rs)"
    unfolding L_def H_def by (rule round64_pos)
  have "0 \<le> real_of_int i * rs / 2" using i1 rspos by simp
  with p(4) have "0 \<le> p" by linarith
  moreover have "p \<le> 2 ^ 32 * rs"
    using p(5) \<open>real_of_int i * rs \<le> 2 ^ 31 * rs\<close> by simp
  ultimately show thesis using that [of p] p(1-3) by blast
qed

lemma ring_radius_double_bounds:
  assumes r: "2 powi (- 960) \<le> r" "r \<le> 2 powi 960" and N: "0 \<le> N" "N \<le> INT_MAX"
    and i: "0 \<le> i" "i \<le> INT_MAX"
    and sp: "ring_spacing_double (Fin r) N = Fin rs"
      "2 powi (- 960) / 2 ^ 34 \<le> rs" "rs \<le> 2 ^ 3 * 2 powi 960"
  obtains h p y where
    "round64 (rs / 2) = Fin h" and "rs / 2 * (1 - eps) \<le> h" and "h \<le> rs / 2 * (1 + eps)"
    and "round64 (real_of_int i * rs) = Fin p"
    and "real_of_int i * rs * (1 - eps) \<le> p" and "p \<le> real_of_int i * rs * (1 + eps)"
    and "ring_radius_double (Fin r) N i = Fin y"
    and "(h + p) * (1 - eps) \<le> y" and "y \<le> (h + p) * (1 + eps)"
proof -
  define L :: real where "L = 2 powi (- 960)"
  define H :: real where "H = 2 powi 960"
  have LH: "0 < L" "0 < H" by (simp_all add: L_def H_def)
  note rs = sp(2,3) [folded L_def H_def]
  have "L / 2 ^ 40 \<le> rs / 2" "rs / 2 \<le> 2 ^ 40 * H"
    using rs LH by (simp_all add: field_simps)
  then obtain h where h: "round64 (rs / 2) = Fin h" "rs / 2 * (1 - eps) \<le> h"
      "h \<le> rs / 2 * (1 + eps)" "rs / 2 / 2 \<le> h" "h \<le> 2 * (rs / 2)"
    unfolding L_def H_def by (rule round64_pos)
  from round64_index_times [OF sp(2,3) i] obtain p where
    p: "round64 (real_of_int i * rs) = Fin p"
      "real_of_int i * rs * (1 - eps) \<le> p" "p \<le> real_of_int i * rs * (1 + eps)"
      "0 \<le> p" "p \<le> 2 ^ 32 * rs" by blast
  have "L / 2 ^ 40 \<le> h + p" "h + p \<le> 2 ^ 40 * H"
    using h(4,5) p(4,5) rs LH by (simp_all add: field_simps)
  then obtain y where y: "round64 (h + p) = Fin y" "(h + p) * (1 - eps) \<le> y"
      "y \<le> (h + p) * (1 + eps)" "(h + p) / 2 \<le> y" "y \<le> 2 * (h + p)"
    unfolding L_def H_def by (rule round64_pos)
  have "ring_radius_double (Fin r) N i = Fin y"
    using sp(1) h(1) p(1) y(1) by (simp add: ring_radius_double_def)
  with h(1-3) p(1-3) y(2,3) that show thesis by blast
qed

text \<open>How the five rounding errors of the outermost radius combine.\<close>

lemma outer_chain_upper:
  fixes a b :: real
  assumes ab: "0 < a" "0 < b" and pos: "0 < x0" "0 < r" "0 \<le> n" and x0: "x0 = n + 1 / 2"
    and d: "x0 * a \<le> d"
    and rs: "rs \<le> r / d * b" "0 \<le> rs"
    and h: "h \<le> rs / 2 * b"
    and p: "p \<le> n * rs * b"
    and y: "y \<le> (h + p) * b"
  shows "y \<le> r * (b ^ 3 / a)"
proof -
  have x0a: "0 < x0 * a" using ab pos by simp
  with d have dpos: "0 < d" by linarith
  have "r / d \<le> r / (x0 * a)"
    using d pos dpos x0a by (intro divide_left_mono) simp_all
  then have "r / d * b \<le> r / (x0 * a) * b"
    using ab by (intro mult_right_mono) auto
  with rs have rs': "rs \<le> r / (x0 * a) * b" by linarith
  have "h + p \<le> rs * x0 * b"
    using h p by (simp add: x0 algebra_simps)
  also have "\<dots> \<le> r / (x0 * a) * b * x0 * b"
    using rs' pos ab by (intro mult_right_mono) auto
  also have "\<dots> = r * (b ^ 2 / a)"
    using pos ab by (simp add: field_simps power2_eq_square)
  finally have "h + p \<le> r * (b ^ 2 / a)" .
  then have "(h + p) * b \<le> r * (b ^ 2 / a) * b"
    using ab by (intro mult_right_mono) auto
  also have "\<dots> = r * (b ^ 3 / a)"
    by (simp add: power3_eq_cube power2_eq_square)
  finally show ?thesis using y by linarith
qed

lemma outer_chain_lower:
  fixes a b :: real
  assumes ab: "0 < a" "0 < b" and pos: "0 < x0" "0 < r" "0 \<le> n" and x0: "x0 = n + 1 / 2"
    and d: "d \<le> x0 * b" "0 < d"
    and rs: "r / d * a \<le> rs"
    and h: "rs / 2 * a \<le> h"
    and p: "n * rs * a \<le> p"
    and y: "(h + p) * a \<le> y"
  shows "r * (a ^ 3 / b) \<le> y"
proof -
  have "r / (x0 * b) \<le> r / d"
    using d pos ab by (intro divide_left_mono) (auto intro: mult_pos_pos less_imp_le)
  then have "r / (x0 * b) * a \<le> r / d * a"
    using ab by (intro mult_right_mono) auto
  with rs have rs': "r / (x0 * b) * a \<le> rs" by linarith
  have "r * (a ^ 2 / b) = r / (x0 * b) * a * x0 * a"
    using pos ab by (simp add: field_simps power2_eq_square)
  also have "\<dots> \<le> rs * x0 * a"
    using rs' pos ab by (intro mult_right_mono) auto
  also have "\<dots> \<le> h + p"
    using h p by (simp add: x0 algebra_simps)
  finally have "r * (a ^ 2 / b) \<le> h + p" .
  then have "r * (a ^ 2 / b) * a \<le> (h + p) * a"
    using ab by (intro mult_right_mono) auto
  moreover have "r * (a ^ 2 / b) * a = r * (a ^ 3 / b)"
    by (simp add: power3_eq_cube power2_eq_square)
  ultimately show ?thesis using y by linarith
qed

lemma eps_cubes:
  "(1 + eps) ^ 3 / (1 - eps) \<le> 1 + 1 / 2 ^ 50"
  "1 - 1 / 2 ^ 50 \<le> (1 - eps) ^ 3 / (1 + eps)"
  by (simp_all add: eps_def field_simps)

lemma ring_radius_double_outermost_close:
  assumes r: "2 powi (- 960) \<le> r" "r \<le> 2 powi 960" and N: "1 \<le> N" "N \<le> INT_MAX"
  shows "\<exists>y. ring_radius_double (Fin r) N N = Fin y \<and> \<bar>y - r\<bar> \<le> r / 2 ^ 50"
proof -
  have N0: "0 \<le> N" using N by simp
  have "(0::real) < 2 powi (- 960)" by simp
  with r(1) have rpos: "0 < r" by linarith
  from ring_spacing_double_bounds [OF r N0 N(2)] obtain d rs where
    d: "0 < d" "(real_of_int N + 1 / 2) * (1 - eps) \<le> d" "d \<le> (real_of_int N + 1 / 2) * (1 + eps)"
    and sp: "ring_spacing_double (Fin r) N = Fin rs"
      "2 powi (- 960) / 2 ^ 34 \<le> rs" "rs \<le> 2 ^ 3 * 2 powi 960"
    and rs: "r / d * (1 - eps) \<le> rs" "rs \<le> r / d * (1 + eps)"
    by blast
  from ring_radius_double_bounds [OF r N0 N(2) N0 N(2) sp] obtain h p y where
    h: "rs / 2 * (1 - eps) \<le> h" "h \<le> rs / 2 * (1 + eps)"
    and p: "real_of_int N * rs * (1 - eps) \<le> p" "p \<le> real_of_int N * rs * (1 + eps)"
    and y: "ring_radius_double (Fin r) N N = Fin y"
      "(h + p) * (1 - eps) \<le> y" "y \<le> (h + p) * (1 + eps)"
    by blast
  have ab: "0 < 1 - eps" "0 < 1 + eps" by (simp_all add: eps_def)
  have x0: "0 < real_of_int N + 1 / 2" "0 \<le> real_of_int N" using N0 by simp_all
  have "(0::real) < 2 powi (- 960) / 2 ^ 34" by simp
  with sp(2) have rspos: "0 \<le> rs" by linarith
  have "y \<le> r * ((1 + eps) ^ 3 / (1 - eps))"
    using ab x0(1) rpos x0(2) refl d(2) rs(2) rspos h(2) p(2) y(3)
    by (rule outer_chain_upper)
  moreover have "r * ((1 + eps) ^ 3 / (1 - eps)) \<le> r * (1 + 1 / 2 ^ 50)"
    using rpos eps_cubes(1) by (intro mult_left_mono) simp_all
  moreover have "r * ((1 - eps) ^ 3 / (1 + eps)) \<le> y"
    using ab x0(1) rpos x0(2) refl d(3) d(1) rs(1) h(1) p(1) y(2)
    by (rule outer_chain_lower)
  moreover have "r * (1 - 1 / 2 ^ 50) \<le> r * ((1 - eps) ^ 3 / (1 + eps))"
    using rpos eps_cubes(2) by (intro mult_left_mono) simp_all
  ultimately have "y \<le> r * (1 + 1 / 2 ^ 50)" and "r * (1 - 1 / 2 ^ 50) \<le> y"
    by linarith+
  then have "y - r \<le> r / 2 ^ 50" and "- (y - r) \<le> r / 2 ^ 50"
    by (simp_all add: algebra_simps)
  then have "\<bar>y - r\<bar> \<le> r / 2 ^ 50"
    by (rule abs_leI)
  with y(1) show ?thesis by blast
qed

text \<open>
  Values at four inputs: a radius of 100 with 8 rings, whose spacing is the
  \<^verbatim>\<open>double\<close> next to \<open>200 / 17\<close>, printed as 11.764705882352942; a radius of 100
  with 3 rings, whose outermost radius is one unit in the last place above 100,
  printed as 100.00000000000001; the smallest positive \<^verbatim>\<open>double\<close>, whose spacing
  with 2 rings rounds to zero; and the largest finite \<^verbatim>\<open>double\<close> with 1 ring.
\<close>

lemma ring_spacing_double_example:
  "ring_spacing_double (Fin 100) 8 = Fin (827867578560753 / 2 ^ 46)"
proof -
  have "round64 (8 + 1 / 2) = Fin (17 / 2)"
    using round64_eval [of 3 "8 + 1 / 2"]
    by (simp add: EMIN_def EMAX_def round_even_def)
  moreover have "round64 (100 / (17 / 2)) = Fin (827867578560753 / 2 ^ 46)"
    using round64_eval [of 3 "100 / (17 / 2)"]
    by (simp add: EMIN_def EMAX_def round_even_def)
  ultimately show ?thesis
    by (simp add: ring_spacing_double_def)
qed

lemma ring_radius_double_example: "ring_radius_double (Fin 100) 3 3 = Fin (100 + 1 / 2 ^ 46)"
proof -
  have "round64 (3 + 1 / 2) = Fin (7 / 2)"
    using round64_eval [of 1 "3 + 1 / 2"]
    by (simp add: EMIN_def EMAX_def round_even_def)
  moreover have "round64 (100 / (7 / 2)) = Fin (8042142191733029 / 2 ^ 48)"
    using round64_eval [of 4 "100 / (7 / 2)"]
    by (simp add: EMIN_def EMAX_def round_even_def)
  moreover have "round64 (8042142191733029 / 2 ^ 48 / 2) = Fin (8042142191733029 / 2 ^ 49)"
    using round64_eval [of 3 "8042142191733029 / 2 ^ 48 / 2"]
    by (simp add: EMIN_def EMAX_def round_even_def)
  moreover have "round64 (3 * (8042142191733029 / 2 ^ 48)) = Fin (1507901660949943 / 2 ^ 44)"
    using round64_eval [of 6 "3 * (8042142191733029 / 2 ^ 48)"]
    by (simp add: EMIN_def EMAX_def round_even_def)
  moreover have "round64 (8042142191733029 / 2 ^ 49 + 1507901660949943 / 2 ^ 44)
      = Fin (100 + 1 / 2 ^ 46)"
    using round64_eval [of 6 "8042142191733029 / 2 ^ 49 + 1507901660949943 / 2 ^ 44"]
    by (simp add: EMIN_def EMAX_def round_even_def)
  ultimately show ?thesis
    by (simp add: ring_radius_double_def ring_spacing_double_def)
qed

lemma ring_spacing_double_underflow: "ring_spacing_double (Fin (2 powi (- 1074))) 2 = Fin 0"
proof -
  have d: "round64 (5 / 2) = Fin (5 / 2)"
    using round64_eval [of 1 "5 / 2"]
    by (simp add: EMIN_def EMAX_def round_even_def)
  have "\<bar>2 powi (- 1074) / (5 / 2) :: real\<bar> < 2 powi (EMIN - 53)"
    by (simp add: EMIN_def)
  then have "round64 (2 powi (- 1074) / (5 / 2)) = Fin 0"
    by (rule round64_subnormal_zero)
  with d show ?thesis
    by (simp add: ring_spacing_double_def del: power_int_numeral_neg_numeral)
qed

lemma overflow_steps:
  "round64 (1 + 1 / 2) = Fin (3 / 2)"
  "round64 (9007199254740991 * 2 ^ 971 / (3 / 2)) = Fin (6004799503160661 * 2 ^ 971)"
  "round64 (6004799503160661 * 2 ^ 971 / 2) = Fin (6004799503160661 * 2 ^ 970)"
  "round64 (1 * (6004799503160661 * 2 ^ 971)) = Fin (6004799503160661 * 2 ^ 971)"
  "round64 (6004799503160661 * 2 ^ 970 + 6004799503160661 * 2 ^ 971) = PInf"
  using round64_eval [of 0 "1 + 1 / 2"]
    round64_eval [of 1023 "9007199254740991 * 2 ^ 971 / (3 / 2)"]
    round64_eval [of 1022 "6004799503160661 * 2 ^ 971 / 2"]
    round64_eval [of 1023 "1 * (6004799503160661 * 2 ^ 971)"]
    round64_eval [of 1023 "6004799503160661 * 2 ^ 970 + 6004799503160661 * 2 ^ 971"]
  by (simp_all add: EMIN_def EMAX_def round_even_def)

text \<open>
  C3, as amended. \<open>ring_radius\<close> is half a ring spacing plus \<open>k\<close> ring spacings, each
  operation rounded to \<^verbatim>\<open>double\<close>; for every radius \<open>r\<close> between \<open>2 powi (- 960)\<close> and
  \<open>2 powi 960\<close> and every ring count \<open>N \<ge> 1\<close> the outermost radius is finite and
  differs from \<open>r\<close> by at most \<open>r / 2 ^ 50\<close>.
\<close>

theorem ring_radius_double_formula:
  "(0 \<le> k \<and> k \<le> N \<longrightarrow>
      ring_radius_double R N k =
        d_add (d_div (ring_spacing_double R N) (Fin 2))
              (d_mul (Fin (real_of_int k)) (ring_spacing_double R N)))
   \<and> (2 powi (- 960) \<le> r \<and> r \<le> 2 powi 960 \<and> 1 \<le> N \<and> N \<le> INT_MAX \<longrightarrow>
        (\<exists>y. ring_radius_double (Fin r) N N = Fin y \<and> \<bar>y - r\<bar> \<le> r / 2 ^ 50))"
  using ring_radius_double_outermost_close [of r N]
  by (simp add: ring_radius_double_def Let_def)

theorem ring_radius_double_formula_witness:
  "(0::int) \<le> 3 \<and> (3::int) \<le> 8
   \<and> ring_radius_double (Fin 100) 8 3 =
        d_add (d_div (ring_spacing_double (Fin 100) 8) (Fin 2))
              (d_mul (Fin (real_of_int 3)) (ring_spacing_double (Fin 100) 8))
   \<and> 2 powi (- 960) \<le> (100::real) \<and> (100::real) \<le> 2 powi 960
   \<and> (1::int) \<le> 8 \<and> 8 \<le> INT_MAX
   \<and> (\<exists>y. ring_radius_double (Fin 100) 8 8 = Fin y \<and> \<bar>y - 100\<bar> \<le> 100 / 2 ^ 50)"
  using ring_radius_double_formula [of 3 8 "Fin 100" 100]
  by (simp add: INT_MAX_def)

text \<open>
  C3, as stated, fails for a large radius: with the largest finite \<^verbatim>\<open>double\<close> as
  radius and one ring, the outermost radius overflows to infinity, which is within
  no tolerance of the radius.
\<close>

theorem ring_radius_double_overflow_counterexample:
  "(0::real) < 9007199254740991 * 2 ^ 971 \<and> (1::int) \<le> 1
   \<and> ring_radius_double (Fin (9007199254740991 * 2 ^ 971)) 1 1 = PInf"
  using overflow_steps by (simp add: ring_radius_double_def ring_spacing_double_def)

lemma increasing_chain:
  fixes t h A B :: real
  assumes "0 < t" and "0 \<le> h" and "h \<le> t / 2 * (1 + eps)"
    and "0 \<le> A" and "A + t \<le> B" and "A \<le> 2 ^ 31 * t"
  shows "(h + A * (1 + eps)) * (1 + eps) < (h + B * (1 - eps)) * (1 - eps)"
  using assms by (simp add: eps_def algebra_simps)

text \<open>
  C4, as amended. For every radius \<open>r\<close> between \<open>2 powi (- 960)\<close> and \<open>2 powi 960\<close>
  and every ring count \<open>N \<ge> 0\<close> the ring radii, computed in \<^verbatim>\<open>double\<close>, are
  strictly increasing in the ring index: \<open>j < k\<close> in \<open>[0, N]\<close> gives a smaller radius
  for \<open>j\<close>.
\<close>

theorem ring_radius_double_strictly_increasing:
  assumes r: "2 powi (- 960) \<le> r" "r \<le> 2 powi 960" and N: "0 \<le> N" "N \<le> INT_MAX"
    and jk: "0 \<le> j" "j < k" "k \<le> N"
  shows "d_less (ring_radius_double (Fin r) N j) (ring_radius_double (Fin r) N k)"
proof -
  from ring_spacing_double_bounds [OF r N] obtain rs where
    sp: "ring_spacing_double (Fin r) N = Fin rs"
      "2 powi (- 960) / 2 ^ 34 \<le> rs" "rs \<le> 2 ^ 3 * 2 powi 960"
    by blast
  have "(0::real) < 2 powi (- 960) / 2 ^ 34" by simp
  with sp(2) have rspos: "0 < rs" by linarith
  have j: "0 \<le> j" "j \<le> INT_MAX" and k: "0 \<le> k" "k \<le> INT_MAX"
    using jk N by simp_all
  from ring_radius_double_bounds [OF r N j sp] obtain h pj yj where
    h: "round64 (rs / 2) = Fin h" "rs / 2 * (1 - eps) \<le> h" "h \<le> rs / 2 * (1 + eps)"
    and pj': "pj \<le> real_of_int j * rs * (1 + eps)"
    and yj: "ring_radius_double (Fin r) N j = Fin yj" "yj \<le> (h + pj) * (1 + eps)"
    by blast
  from ring_radius_double_bounds [OF r N k sp] obtain h' pk yk where
    h': "round64 (rs / 2) = Fin h'"
    and pk: "real_of_int k * rs * (1 - eps) \<le> pk"
    and yk: "ring_radius_double (Fin r) N k = Fin yk" "(h' + pk) * (1 - eps) \<le> yk"
    by blast
  from h(1) h' have hh: "h' = h" by simp
  have ab: "0 < 1 - eps" "0 < 1 + eps" by (simp_all add: eps_def)
  have "0 \<le> rs / 2 * (1 - eps)" using rspos ab by simp
  with h(2) have h0: "0 \<le> h" by linarith
  have "yj \<le> (h + real_of_int j * rs * (1 + eps)) * (1 + eps)"
  proof -
    have "(h + pj) * (1 + eps) \<le> (h + real_of_int j * rs * (1 + eps)) * (1 + eps)"
      using pj' ab by (intro mult_right_mono) simp_all
    with yj(2) show ?thesis by linarith
  qed
  also have "\<dots> < (h + real_of_int k * rs * (1 - eps)) * (1 - eps)"
  proof (rule increasing_chain [OF rspos h0 h(3)])
    show "0 \<le> real_of_int j * rs" using j(1) rspos by simp
    have "(real_of_int j + 1) * rs \<le> real_of_int k * rs"
      using jk(2) rspos by (intro mult_right_mono) simp_all
    then show "real_of_int j * rs + rs \<le> real_of_int k * rs"
      by (simp add: algebra_simps)
    show "real_of_int j * rs \<le> 2 ^ 31 * rs"
      using j(2) rspos by (intro mult_right_mono) (simp_all add: INT_MAX_def)
  qed
  also have "\<dots> \<le> yk"
  proof -
    have "(h + real_of_int k * rs * (1 - eps)) * (1 - eps) \<le> (h + pk) * (1 - eps)"
      using pk ab by (intro mult_right_mono) simp_all
    with yk(2) hh show ?thesis by simp
  qed
  finally show ?thesis by (simp add: yj(1) yk(1))
qed

theorem ring_radius_double_strictly_increasing_witness:
  "2 powi (- 960) \<le> (100::real) \<and> (100::real) \<le> 2 powi 960
   \<and> (0::int) \<le> 8 \<and> 8 \<le> INT_MAX \<and> (0::int) \<le> 2 \<and> (2::int) < 5 \<and> (5::int) \<le> 8
   \<and> d_less (ring_radius_double (Fin 100) 8 2) (ring_radius_double (Fin 100) 8 5)"
  using ring_radius_double_strictly_increasing [of 100 8 2 5]
  by (simp add: INT_MAX_def)

text \<open>
  C4, as stated, fails for a tiny radius: with the smallest positive \<^verbatim>\<open>double\<close> as
  radius and 2 rings the spacing underflows to zero, so ring 0 and ring 1 both have
  radius zero.
\<close>

theorem ring_radius_double_underflow_counterexample:
  "(0::real) < 2 powi (- 1074) \<and> (0::int) \<le> 2 \<and> (0::int) \<le> 0 \<and> (0::int) < 1 \<and> (1::int) \<le> 2
   \<and> ring_radius_double (Fin (2 powi (- 1074))) 2 0 = Fin 0
   \<and> ring_radius_double (Fin (2 powi (- 1074))) 2 1 = Fin 0
   \<and> \<not> d_less (ring_radius_double (Fin (2 powi (- 1074))) 2 0)
                (ring_radius_double (Fin (2 powi (- 1074))) 2 1)"
  by (simp add: ring_radius_double_def ring_spacing_double_underflow round64_def
      del: power_int_numeral_neg_numeral)

subsection \<open>The outer radius\<close>

text \<open>
  C1. The claim is that the outer radius is exactly half the shorter page dimension
  minus the margin minus half the line width. \<^verbatim>\<open>main\<close> stores that value in an
  \<^verbatim>\<open>int\<close>: for the default page (8.5 by 11 inches, margin 0.25, line width 0.05) the
  expression is \<open>286.2\<close> points and the radius used for the rings is \<open>286\<close>.
\<close>

theorem target_radius_truncates:
  "target_radius (inch_pt 8.5) (inch_pt 11) (inch_pt 0.25) (inch_pt 0.05) = Some 286
   \<and> inch_pt 8.5 / 2 - inch_pt 0.25 - inch_pt 0.05 / 2 = 286.2"
  by (simp add: target_radius_def inch_pt_def double_to_int_def trunc_zero_def
      int_ok_def INT_MIN_def INT_MAX_def)

subsection \<open>Outline and number colours\<close>

lemma int_sub_defined: "int_ok (a - b) \<Longrightarrow> int_sub a b = Some (a - b)"
  by (simp add: int_sub_def)

text \<open>For ring counts that are not negative the difference is always representable.\<close>

lemma counts_difference_ok:
  "int_ok N \<Longrightarrow> int_ok outer \<Longrightarrow> 0 \<le> N \<Longrightarrow> 0 \<le> outer \<Longrightarrow> int_ok (N - outer)"
  by (simp add: int_ok_def INT_MIN_def INT_MAX_def)

text \<open>
  C5. For every ring index \<open>k\<close> in \<open>[0, N]\<close> the outline of ring \<open>k\<close> is an arc of
  radius \<open>ring_radius R N k\<close> stroked white if \<open>0 < k < inner\<close> or
  \<open>N - outer < k < N\<close>, and stroked black otherwise. The difference \<open>N - outer\<close> is
  taken in \<^verbatim>\<open>int\<close>; the statement covers every input for which it is representable.
\<close>

theorem ring_outline_colour:
  assumes "0 \<le> k" and "k \<le> N" and "int_ok (N - outer)"
  shows "ring_outline x y R N inner outer k =
           Some [Arc x y (ring_radius (real_of_int R) N k) 0 (2 * pi),
                 if (0 < k \<and> k < inner) \<or> (N - outer < k \<and> k < N)
                 then SetSourceRGBA 1 1 1 1 else SetSourceRGBA 0 0 0 1,
                 Stroke]"
  using assms(3) by (simp add: ring_outline_def int_sub_defined)

theorem ring_outline_colour_witness:
  "(0::int) \<le> 7 \<and> (7::int) \<le> 8 \<and> int_ok (8 - 2)
   \<and> ring_outline 306 396 286 8 3 2 7 =
         Some [Arc 306 396 (ring_radius 286 8 7) 0 (2 * pi), SetSourceRGBA 1 1 1 1, Stroke]"
  using ring_outline_colour [of 7 8 2 306 396 286 3]
  by (simp add: int_ok_def INT_MIN_def INT_MAX_def)

text \<open>
  C6. For every ring index \<open>k\<close> in \<open>[1, N]\<close> the number of ring \<open>k\<close> is drawn white
  if \<open>k \<le> inner\<close> or \<open>k > N - outer\<close>, and black otherwise; with 8 rings, 3 inner and
  2 outer, the number 3 is white, 4 is black and 7 is white. The colour is the
  first operation of the loop body, before the four texts.
\<close>

theorem ring_number_colour:
  "(1 \<le> k \<and> k \<le> N \<and> int_ok (N - outer) \<longrightarrow>
      ring_number x y rs N inner outer k =
        Some [if k \<le> inner \<or> k > N - outer
              then SetSourceRGBA 1 1 1 1 else SetSourceRGBA 0 0 0 1,
              AlignedText (x + real_of_int k * rs) y 9 (show_int k),
              AlignedText (x - real_of_int k * rs) y 9 (show_int k),
              AlignedText x (y + real_of_int k * rs) 9 (show_int k),
              AlignedText x (y - real_of_int k * rs) 9 (show_int k)])
   \<and> map_option hd (ring_number x y rs 8 3 2 3) = Some (SetSourceRGBA 1 1 1 1)
   \<and> map_option hd (ring_number x y rs 8 3 2 4) = Some (SetSourceRGBA 0 0 0 1)
   \<and> map_option hd (ring_number x y rs 8 3 2 7) = Some (SetSourceRGBA 1 1 1 1)"
  by (simp add: ring_number_def int_sub_def Let_def ALIGN_H_CENTER_def ALIGN_V_CENTER_def
      int_ok_def INT_MIN_def INT_MAX_def)

theorem ring_number_colour_witness:
  "(1::int) \<le> 4 \<and> (4::int) \<le> 8 \<and> int_ok (8 - 2)
   \<and> ring_number 306 396 32 8 3 2 4 =
        Some [SetSourceRGBA 0 0 0 1,
              AlignedText 434 396 9 ''4'', AlignedText 178 396 9 ''4'',
              AlignedText 306 524 9 ''4'', AlignedText 306 268 9 ''4'']"
  using ring_number_colour [of 4 8 2 306 396 32 3]
  by (simp add: int_ok_def INT_MIN_def INT_MAX_def show_int_def show_nat.simps)

subsection \<open>The gcd\<close>

text \<open>
  A call with two equal arguments that are not zero takes the last branch and
  repeats itself with the arguments exchanged, so no call that returns has them.
\<close>

lemma gcd_c_returns_unequal:
  assumes "gcd_c a b = Some y"
  shows "a \<noteq> b \<or> a = 0"
proof (rule gcd_c.raw_induct [where P = "\<lambda>a b y. a \<noteq> b \<or> a = 0", OF _ assms])
  fix g :: "int \<Rightarrow> int \<Rightarrow> int option" and a b y :: int
  assume ih: "\<And>a b y. g a b = Some y \<Longrightarrow> a \<noteq> b \<or> a = 0"
    and body: "(if a = 0 then Some b else if a < b then g a (b smod a) else g b a) = Some y"
  show "a \<noteq> b \<or> a = 0"
  proof (cases "a = 0 \<or> a < b")
    case True
    then show ?thesis by auto
  next
    case False
    with body have "g b a = Some y" by simp
    from ih [OF this] False show ?thesis by auto
  qed
qed

lemma gcd_c_equal_args: "a \<noteq> 0 \<Longrightarrow> gcd_c a a = None"
  using gcd_c_returns_unequal [of a a] by (cases "gcd_c a a") auto

text \<open>
  On arguments that are not negative and differ, the function returns, and returns
  the greatest common divisor.
\<close>

lemma smod_nonneg: "0 \<le> b \<Longrightarrow> 0 < a \<Longrightarrow> b smod a = b mod a" for a b :: int
  by (cases "b = 0") (simp_all add: smod_int_alt_def sgn_if)

lemma sdiv_nonneg: "0 \<le> b \<Longrightarrow> 0 < a \<Longrightarrow> b sdiv a = b div a" for a b :: int
  by (cases "b = 0") (simp_all add: signed_divide_int_def sgn_if)

lemma gcd_c_less:
  "0 \<le> a \<Longrightarrow> a < b \<Longrightarrow> gcd_c a b = Some (gcd a b)"
proof (induction "nat a" arbitrary: a b rule: less_induct)
  case less
  show ?case
  proof (cases "a = 0")
    case True
    with less.prems show ?thesis by (simp add: gcd_c.simps)
  next
    case False
    define r where "r = b mod a"
    from False less.prems have a: "0 < a" by simp
    then have r: "0 \<le> r" "r < a" by (simp_all add: r_def)
    have "gcd_c a b = gcd_c a r"
      using a less.prems by (subst gcd_c.simps) (simp add: smod_nonneg r_def)
    also have "\<dots> = gcd_c r a"
      using a r by (subst gcd_c.simps) simp
    also have "\<dots> = Some (gcd r a)"
      using r a by (intro less.hyps) auto
    also have "gcd r a = gcd a b"
      by (simp add: r_def gcd.commute gcd_red_int [symmetric])
    finally show ?thesis .
  qed
qed

lemma gcd_c_greater:
  assumes "0 \<le> b" and "b < a"
  shows "gcd_c a b = Some (gcd a b)"
proof -
  have "gcd_c a b = gcd_c b a"
    using assms by (subst gcd_c.simps) simp
  with assms show ?thesis by (simp add: gcd_c_less gcd.commute)
qed

lemma gcd_c_unequal:
  "0 \<le> a \<Longrightarrow> 0 \<le> b \<Longrightarrow> a \<noteq> b \<Longrightarrow> gcd_c a b = Some (gcd a b)"
  using gcd_c_less [of a b] gcd_c_greater [of b a] by (cases "a < b") auto

text \<open>
  C10. The claim is that \<^verbatim>\<open>gcd(a, b)\<close> terminates for all non-negative arguments
  and that \<^verbatim>\<open>gcd(num, 32)\<close> terminates for every non-negative \<open>num\<close>. The call
  \<^verbatim>\<open>gcd(32, 32)\<close> has no result: it is neither \<open>a = 0\<close> nor \<open>a < b\<close>, so it calls
  \<^verbatim>\<open>gcd(32, 32)\<close> again.
\<close>

theorem gcd_equal_arguments_no_result: "gcd_c 32 32 = None"
  by (rule gcd_c_equal_args) simp

subsection \<open>The caption\<close>

lemma int_div_nonneg:
  assumes "0 \<le> n" and "int_ok n" and "0 < g"
  shows "int_div n g = Some (n div g)"
proof -
  have "0 \<le> n div g" using assms by (simp add: pos_imp_zdiv_nonneg_iff)
  moreover have "n div g \<le> n"
    using zdiv_mono2 [of n 1 g] assms by simp
  ultimately have "int_ok (n div g)"
    using assms(2) by (simp add: int_ok_def INT_MIN_def)
  then show ?thesis
    using assms by (simp add: int_div_def sdiv_nonneg)
qed

text \<open>
  Whatever non-negative numerator other than \<open>32\<close> the conversion yields, the
  caption is that numerator over \<open>32\<close>, both divided by their gcd.
\<close>

lemma caption_reduced:
  assumes "double_to_int (pt_inch p * 32 + 0.5) = Some num" and "0 \<le> num" and "num \<noteq> 32"
  shows "caption p =
           Some (''Ring spacing '' @ show_int (num div gcd num 32) @ ''/'' @
                 show_int (32 div gcd num 32) @ [CHR 0x22])"
proof -
  have ok: "int_ok num"
    using assms(1) by (simp add: double_to_int_def split: if_splits)
  have g: "gcd_c num 32 = Some (gcd num 32)"
    using assms(2,3) by (simp add: gcd_c_unequal)
  have gpos: "0 < gcd num 32"
    by (simp add: gcd_pos_int)
  have d1: "int_div num (gcd num 32) = Some (num div gcd num 32)"
    using assms(2) ok gpos by (rule int_div_nonneg)
  have d2: "int_div 32 (gcd num 32) = Some (32 div gcd num 32)"
    using gpos by (intro int_div_nonneg) (simp_all add: int_ok_def INT_MIN_def INT_MAX_def)
  show ?thesis
    using assms(1) g d1 d2 by (simp add: caption_def)
qed

lemma caption_three_quarters: "caption 54 = Some (''Ring spacing 3/4'' @ [CHR 0x22])"
  by (simp add: caption_def double_to_int_def pt_inch_def trunc_zero_def int_ok_def
      INT_MIN_def INT_MAX_def gcd_c.simps int_div_def show_int_def show_nat.simps
      smod_int_alt_def signed_divide_int_def)

text \<open>
  C7. The claim is that for every ring spacing the caption is the fraction
  \<open>round (p / 72 * 32) / 32\<close> reduced by the gcd. For a spacing of one inch
  (\<open>p = 72\<close>) the numerator is \<open>32\<close> and the gcd does not return, so there is no
  caption; the same happens for the page \<^verbatim>\<open>-s 17.5x17.5\<close>, whose radius is \<open>610\<close>
  points and whose spacing with 8 rings rounds to \<open>32 / 32\<close>.
\<close>

theorem caption_one_inch_no_result:
  "double_to_int (pt_inch 72 * 32 + 0.5) = Some 32 \<and> caption 72 = None
   \<and> target_radius (inch_pt 17.5) (inch_pt 17.5) (inch_pt 0.25) (inch_pt 0.05) = Some 610
   \<and> caption (ring_spacing 610 8) = None"
proof -
  have n: "double_to_int (pt_inch 72 * 32 + 0.5) = Some 32"
    by (simp add: double_to_int_def pt_inch_def trunc_zero_def int_ok_def INT_MIN_def INT_MAX_def)
  have m: "double_to_int (pt_inch (ring_spacing 610 8) * 32 + 0.5) = Some 32"
    by (simp add: double_to_int_def pt_inch_def ring_spacing_def trunc_zero_def
        int_ok_def INT_MIN_def INT_MAX_def)
  have g: "gcd_c 32 32 = None"
    by (rule gcd_c_equal_args) simp
  have r: "target_radius (inch_pt 17.5) (inch_pt 17.5) (inch_pt 0.25) (inch_pt 0.05) = Some 610"
    by (simp add: target_radius_def inch_pt_def double_to_int_def trunc_zero_def
        int_ok_def INT_MIN_def INT_MAX_def)
  show ?thesis
    using n m g r by (simp add: caption_def)
qed

subsection \<open>Ending the run through usage\<close>

lemma switch_opt_default:
  "fst r \<notin> set ''smorIOlb'' \<Longrightarrow> switch_opt E opts r = None"
  by (cases r) simp

lemma getopt_loop_ends_in_usage:
  "getopt_loop E opts results = Inl ended \<Longrightarrow> ended = usage"
  by (induction results arbitrary: opts) (auto split: option.splits)

lemma getopt_loop_unrecognized:
  "\<exists>r \<in> set results. fst r \<notin> set ''smorIOlb'' \<Longrightarrow> getopt_loop E opts results = Inl usage"
proof (induction results arbitrary: opts)
  case Nil
  then show ?case by simp
next
  case (Cons r results)
  show ?case
  proof (cases "switch_opt E opts r")
    case None
    then show ?thesis by simp
  next
    case (Some opts')
    then have "\<not> fst r \<notin> set ''smorIOlb''"
      using switch_opt_default [of r E opts] by auto
    with Cons.prems have "\<exists>r \<in> set results. fst r \<notin> set ''smorIOlb''" by auto
    from Cons.IH [OF this] Some show ?thesis by simp
  qed
qed

lemma getopt_loop_append:
  "getopt_loop E opts (pre @ post) =
     (case getopt_loop E opts pre of
        Inl ended \<Rightarrow> Inl ended
      | Inr opts' \<Rightarrow> getopt_loop E opts' post)"
  by (induction pre arbitrary: opts) (auto split: option.splits)

lemma switch_opt_keeps_geom:
  "fst r \<noteq> CHR ''s'' \<Longrightarrow> switch_opt E opts r = Some opts' \<Longrightarrow> opt_geom opts' = opt_geom opts"
  by (cases r) (auto split: if_splits)

lemma getopt_loop_keeps_geom:
  "\<forall>r \<in> set post. fst r \<noteq> CHR ''s'' \<Longrightarrow> getopt_loop E opts post = Inr opts'
     \<Longrightarrow> opt_geom opts' = opt_geom opts"
proof (induction post arbitrary: opts)
  case Nil
  then show ?case by simp
next
  case (Cons r post)
  from Cons.prems(2) obtain mid where
    mid: "switch_opt E opts r = Some mid" and rest: "getopt_loop E mid post = Inr opts'"
    by (auto split: option.splits)
  from Cons.prems(1) have "opt_geom mid = opt_geom opts"
    using switch_opt_keeps_geom [OF _ mid] by simp
  moreover from Cons.prems(1) have "opt_geom opts' = opt_geom mid"
    using Cons.IH [OF _ rest] by simp
  ultimately show ?case by simp
qed

lemma getopt_loop_last_s:
  assumes "\<forall>r \<in> set post. fst r \<noteq> CHR ''s''"
    and "getopt_loop E opts (pre @ (CHR ''s'', a) # post) = Inr opts'"
  shows "opt_geom opts' = a"
proof -
  from assms(2) obtain o1 where o1: "getopt_loop E opts pre = Inr o1"
    and rest: "getopt_loop E o1 ((CHR ''s'', a) # post) = Inr opts'"
    by (auto simp: getopt_loop_append split: sum.splits)
  from rest have "getopt_loop E (o1\<lparr>opt_geom := a\<rparr>) post = Inr opts'" by simp
  from getopt_loop_keeps_geom [OF assms(1) this] show ?thesis by simp
qed

lemma page_geometry_no_x:
  "CHR ''x'' \<notin> set (opt_geom opts) \<Longrightarrow> page_geometry E opts = Some (Inl usage)"
  by (simp add: page_geometry_def strchr_def)

text \<open>
  C8. If \<^verbatim>\<open>getopt\<close> reports a character that is not one of the eight options (it
  reports \<^verbatim>\<open>'?'\<close> for an unrecognized flag), or if the \<^verbatim>\<open>-s\<close> argument in effect
  (that of the last \<^verbatim>\<open>-s\<close>) contains no \<^verbatim>\<open>x\<close>, the run consists of writing the usage
  text to standard error and exiting with status 2: no PDF surface, hence no output
  file, is created.
\<close>

theorem usage_on_bad_command_line:
  assumes "(\<exists>r \<in> set results. fst r \<notin> set ''smorIOlb'')
           \<or> (\<exists>pre a post. results = pre @ (CHR ''s'', a) # post
                \<and> (\<forall>r \<in> set post. fst r \<noteq> CHR ''s'') \<and> CHR ''x'' \<notin> set a)"
  shows "main_begin E results = Some [Stderr usage_text, Exit 2]"
proof (cases "getopt_loop E (main_locals E) results")
  case (Inl ended)
  then show ?thesis
    using getopt_loop_ends_in_usage [OF Inl] by (simp add: main_begin_def usage_def)
next
  case (Inr opts)
  with assms getopt_loop_unrecognized [of results E "main_locals E"]
  obtain pre a post where "results = pre @ (CHR ''s'', a) # post"
    and "\<forall>r \<in> set post. fst r \<noteq> CHR ''s''" and nox: "CHR ''x'' \<notin> set a"
    by auto
  with Inr have "opt_geom opts = a"
    using getopt_loop_last_s [of post E "main_locals E" pre a opts] by simp
  with nox have "page_geometry E opts = Some (Inl usage)"
    by (simp add: page_geometry_no_x)
  with Inr show ?thesis by (simp add: main_begin_def usage_def)
qed

theorem usage_on_bad_command_line_witness:
  "main_begin \<lparr>atof = (\<lambda>s. 0), atoi = (\<lambda>s. 0), cairo_status = None,
               opt_bg_indeterminate = False\<rparr> [(CHR ''s'', ''10'')]
     = Some [Stderr usage_text, Exit 2]
   \<and> main_begin \<lparr>atof = (\<lambda>s. 0), atoi = (\<lambda>s. 0), cairo_status = None,
               opt_bg_indeterminate = False\<rparr> [(CHR ''b'', []), (CHR ''?'', [])]
     = Some [Stderr usage_text, Exit 2]"
proof -
  have a: "\<exists>pre a post. [(CHR ''s'', ''10'')] = pre @ (CHR ''s'', a) # post
            \<and> (\<forall>r \<in> set post. fst r \<noteq> CHR ''s'') \<and> CHR ''x'' \<notin> set a"
    by (rule exI [of _ "[]"], rule exI [of _ "''10''"], rule exI [of _ "[]"]) simp
  have b: "\<exists>r \<in> set [(CHR ''b'', []), (CHR ''?'', [])]. fst r \<notin> set ''smorIOlb''"
    by simp
  show ?thesis
    using usage_on_bad_command_line [OF disjI2, OF a]
      usage_on_bad_command_line [OF disjI1, OF b]
    by blast
qed

subsection \<open>The background\<close>

text \<open>
  C9. The claim is that without \<^verbatim>\<open>-b\<close> no background rectangle is filled and the
  output depends on the command line only. \<^verbatim>\<open>opt_bg\<close> has no initialiser and only
  \<^verbatim>\<open>-b\<close> assigns it, so without the flag the block runs or not according to the
  value the variable happens to hold: for the empty command line and the default
  page, the rectangle is filled when that value is true and not when it is false.
\<close>

theorem background_without_b:
  "main_begin \<lparr>atof = (\<lambda>s. if s = ''11'' then 11 else 8.5), atoi = (\<lambda>s. 0),
               cairo_status = None, opt_bg_indeterminate = True\<rparr> [] =
     Some [PdfSurfaceCreate ''target.pdf'' 612 792,
           Cairo (Rectangle 18 18 576 756),
           Cairo (SetSourceRGBA 0.95 0.95 0.8 1.0),
           Cairo Fill]
   \<and> main_begin \<lparr>atof = (\<lambda>s. if s = ''11'' then 11 else 8.5), atoi = (\<lambda>s. 0),
               cairo_status = None, opt_bg_indeterminate = False\<rparr> [] =
     Some [PdfSurfaceCreate ''target.pdf'' 612 792]"
  by (simp add: main_begin_def main_locals_def page_geometry_def strchr_def
      DEFAULT_GEOM_def DEFAULT_MARGIN_def DEFAULT_FNAME_def DEFAULT_LINEW_def
      target_radius_def inch_pt_def double_to_int_def trunc_zero_def
      int_ok_def INT_MIN_def INT_MAX_def check_status_def background_def Let_def)

end
